theory Spec2Isabelle
  imports Main "HOL-Library.AList"
begin

section \<open>Data model of the logging facade (src/src/index.ts)\<close>

subsection \<open>Log levels and their priorities\<close>

text \<open>
  \<^verbatim>\<open>type LogLevel = "debug" | "info" | "warn" | "error" | "fatal"\<close> and the table
  \<^verbatim>\<open>LOG_LEVEL_PRIORITY\<close>. A level is one of five string literals; \<open>level_name\<close> gives the
  literal back, for the places where the code uses the level as a string.
\<close>

datatype LogLevel = Debug | Info | Warn | Error | Fatal

fun LOG_LEVEL_PRIORITY :: "LogLevel \<Rightarrow> nat" where
  "LOG_LEVEL_PRIORITY Debug = 0"
| "LOG_LEVEL_PRIORITY Info = 1"
| "LOG_LEVEL_PRIORITY Warn = 2"
| "LOG_LEVEL_PRIORITY Error = 3"
| "LOG_LEVEL_PRIORITY Fatal = 4"

fun level_name :: "LogLevel \<Rightarrow> string" where
  "level_name Debug = ''debug''"
| "level_name Info = ''info''"
| "level_name Warn = ''warn''"
| "level_name Error = ''error''"
| "level_name Fatal = ''fatal''"

subsection \<open>JavaScript values, objects and errors\<close>

text \<open>
  A context is a \<^verbatim>\<open>Record<string, unknown>\<close>: an object with string keys. Objects are
  association lists in own-property order with pairwise distinct keys (\<open>wf_obj\<close>); the
  values are a tree-shaped fragment of the JavaScript values. Strings are lists of code
  units below 256. Property order is creation order, which is what JavaScript does for
  keys that are not array indices.
\<close>

datatype jsval =
    JUndefined
  | JNull
  | JBool bool
  | JNum int
  | JStr string
  | JArr "jsval list"
  | JObj "(string \<times> jsval) list"

type_synonym obj = "(string \<times> jsval) list"

definition wf_obj :: "obj \<Rightarrow> bool" where
  "wf_obj ps = distinct (map fst ps)"

text \<open>
  Object spread. \<^verbatim>\<open>{...a, ...b}\<close> starts from the empty object and copies the own
  properties of each source in turn, in the source's order; writing a key that exists
  replaces its value in place, writing a new key appends it. Spreading \<^verbatim>\<open>undefined\<close>
  copies nothing.
\<close>

definition spread :: "obj \<Rightarrow> obj option \<Rightarrow> obj" where
  "spread target src =
     (case src of
        None \<Rightarrow> target
      | Some ps \<Rightarrow> foldl (\<lambda>acc (k, v). AList.update k v acc) target ps)"

text \<open>An \<^verbatim>\<open>Error\<close> object: name, message and the optional \<^verbatim>\<open>stack\<close> property.\<close>

record JsError =
  err_name :: string
  err_message :: string
  stack :: "string option"

text \<open>\<^verbatim>\<open>Error.prototype.toString\<close>, which a template literal applies to an interpolated error.\<close>

definition Error_toString :: "JsError \<Rightarrow> string" where
  "Error_toString e =
     (if err_name e = [] then err_message e
      else if err_message e = [] then err_name e
      else err_name e @ '': '' @ err_message e)"

text \<open>A template literal renders \<^verbatim>\<open>undefined\<close> as the text \<^verbatim>\<open>undefined\<close>.\<close>

definition template :: "string option \<Rightarrow> string" where
  "template s = (case s of None \<Rightarrow> ''undefined'' | Some t \<Rightarrow> t)"

subsection \<open>Host functions used by the formatter\<close>

definition digit_char :: "int \<Rightarrow> char" where
  "digit_char d = ''0123456789abcdef'' ! nat (d mod 16)"

text \<open>Decimal digits of a non-negative integer, most significant first.\<close>

function show_nat :: "int \<Rightarrow> string" where
  "show_nat n = (if n < 10 then [digit_char n] else show_nat (n div 10) @ [digit_char (n mod 10)])"
  by pat_completeness auto
termination
  by (relation "measure nat") auto

declare show_nat.simps [simp del]

definition show_int :: "int \<Rightarrow> string" where
  "show_int i = (if i < 0 then CHR ''-'' # show_nat (- i) else show_nat i)"

text \<open>Zero-padded decimal of width \<open>w\<close>, as the date fields are printed.\<close>

definition pad :: "nat \<Rightarrow> int \<Rightarrow> string" where
  "pad w n = (let s = show_nat n in replicate (w - length s) CHR ''0'' @ s)"

text \<open>
  \<^verbatim>\<open>String.prototype.toUpperCase\<close> on the ASCII letters (the level names are ASCII; other
  code units are left as they are).
\<close>

definition upper_char :: "char \<Rightarrow> char" where
  "upper_char c =
     (let n = (of_char c :: nat) in if 97 \<le> n \<and> n \<le> 122 then char_of (n - 32) else c)"

definition toUpperCase :: "string \<Rightarrow> string" where
  "toUpperCase s = map upper_char s"

text \<open>
  \<^verbatim>\<open>JSON.stringify\<close> without indentation. \<open>quote\<close> is the string quoting of JSON: the
  quote and the backslash are escaped, control characters get their short escape or
  \<^verbatim>\<open>\u00XX\<close>. A property or the whole value that is \<^verbatim>\<open>undefined\<close> has no rendering
  (\<open>None\<close>): it is left out of an object and printed as \<^verbatim>\<open>null\<close> in an array. Numbers are
  the integers that print in plain decimal.
\<close>

definition quote_char :: "char \<Rightarrow> string" where
  "quote_char c =
     (let n = (of_char c :: nat) in
      if n = 34 then [CHR 0x5C, CHR 0x22]
      else if n = 92 then [CHR 0x5C, CHR 0x5C]
      else if n = 8 then [CHR 0x5C, CHR ''b'']
      else if n = 9 then [CHR 0x5C, CHR ''t'']
      else if n = 10 then [CHR 0x5C, CHR ''n'']
      else if n = 12 then [CHR 0x5C, CHR ''f'']
      else if n = 13 then [CHR 0x5C, CHR ''r'']
      else if n < 32 then
        [CHR 0x5C, CHR ''u'', CHR ''0'', CHR ''0'', digit_char (int n div 16), digit_char (int n mod 16)]
      else [c])"

definition quote :: "string \<Rightarrow> string" where
  "quote s = CHR 0x22 # concat (map quote_char s) @ [CHR 0x22]"

fun join :: "string list \<Rightarrow> string" where
  "join [] = []"
| "join [s] = s"
| "join (s # t # ss) = s @ '','' @ join (t # ss)"

fun JSON_value :: "jsval \<Rightarrow> string option"
  and JSON_elems :: "jsval list \<Rightarrow> string list"
  and JSON_props :: "(string \<times> jsval) list \<Rightarrow> string list" where
  "JSON_value JUndefined = None"
| "JSON_value JNull = Some ''null''"
| "JSON_value (JBool b) = Some (if b then ''true'' else ''false'')"
| "JSON_value (JNum n) = Some (show_int n)"
| "JSON_value (JStr s) = Some (quote s)"
| "JSON_value (JArr xs) = Some (''['' @ join (JSON_elems xs) @ '']'')"
| "JSON_value (JObj ps) = Some (''{'' @ join (JSON_props ps) @ ''}'')"
| "JSON_elems [] = []"
| "JSON_elems (x # xs) =
     (case JSON_value x of None \<Rightarrow> ''null'' | Some s \<Rightarrow> s) # JSON_elems xs"
| "JSON_props [] = []"
| "JSON_props ((k, v) # ps) =
     (case JSON_value v of
        None \<Rightarrow> JSON_props ps
      | Some s \<Rightarrow> (quote k @ '':'' @ s) # JSON_props ps)"

definition JSON_stringify :: "jsval \<Rightarrow> string option" where
  "JSON_stringify v = JSON_value v"

text \<open>
  \<^verbatim>\<open>Date.prototype.toISOString\<close> of a valid date, given by its time value in milliseconds
  since the epoch (the only dates the logger makes are \<^verbatim>\<open>new Date()\<close>). The calendar date
  comes from the day number by the usual era computation of the proleptic Gregorian
  calendar; years outside 0..9999 are printed with a sign and six digits.
\<close>

definition civil_from_days :: "int \<Rightarrow> int \<times> int \<times> int" where
  "civil_from_days z =
     (let z1 = z + 719468;
          era = z1 div 146097;
          doe = z1 mod 146097;
          yoe = (doe - doe div 1460 + doe div 36524 - doe div 146096) div 365;
          doy = doe - (365 * yoe + yoe div 4 - yoe div 100);
          mp = (5 * doy + 2) div 153;
          d = doy - (153 * mp + 2) div 5 + 1;
          m = (if mp < 10 then mp + 3 else mp - 9);
          y = yoe + era * 400 + (if m \<le> 2 then 1 else 0)
      in (y, m, d))"

definition show_year :: "int \<Rightarrow> string" where
  "show_year y =
     (if 0 \<le> y \<and> y \<le> 9999 then pad 4 y
      else if y < 0 then CHR ''-'' # pad 6 (- y)
      else CHR ''+'' # pad 6 y)"

definition toISOString :: "int \<Rightarrow> string" where
  "toISOString t =
     (let (y, m, d) = civil_from_days (t div 86400000);
          ms = t mod 86400000
      in show_year y @ ''-'' @ pad 2 m @ ''-'' @ pad 2 d @ ''T''
         @ pad 2 (ms div 3600000) @ '':'' @ pad 2 (ms div 60000 mod 60) @ '':''
         @ pad 2 (ms div 1000 mod 60) @ ''.'' @ pad 3 (ms mod 1000) @ ''Z'')"

subsection \<open>Log entries\<close>

record LogEntry =
  level :: LogLevel
  message :: string
  timestamp :: int
  "context" :: "obj option"
  error :: "JsError option"
  tags :: "string list option"
  source :: "string option"

subsection \<open>Transports, configuration and the store\<close>

text \<open>
  Objects that the program shares and mutates live in a store and are named by references.
  A transport is a reference (its identity); what its \<^verbatim>\<open>write\<close> does with an entry is
  looked up in the store, as a function of the transport and the entry. A call of
  \<^verbatim>\<open>write\<close> is modelled by the way it ends: the promise it returns fulfils, or it
  rejects, or the call throws before returning a promise. When and in which order the
  promises settle is not modelled.
\<close>

type_synonym ref = nat

datatype write_result = Fulfils | Throws JsError | Rejects JsError

text \<open>
  \<^verbatim>\<open>interface LoggerConfig\<close>. The field \<open>transports\<close> holds the reference of an array
  object: JavaScript copies that reference, not the array, when a configuration is
  spread. Formatter and filters are functions that return or throw.
\<close>

record LoggerConfig =
  minLevel :: LogLevel
  transports :: ref
  defaultContext :: "obj option"
  formatter :: "(LogEntry \<Rightarrow> JsError + string) option"
  filters :: "(LogEntry \<Rightarrow> JsError + bool) list option"

text \<open>
  The store: the transport arrays, the configuration object that each Logger owns
  (\<^verbatim>\<open>this.config\<close>), the behaviour of each transport object, and the next unused
  reference for arrays and loggers.
\<close>

record heap =
  arrays :: "ref \<Rightarrow> ref list"
  loggers :: "ref \<Rightarrow> LoggerConfig"
  transport_write :: "ref \<Rightarrow> LogEntry \<Rightarrow> write_result"
  next_ref :: ref

text \<open>An array literal \<^verbatim>\<open>[t1, ..., tn]\<close> makes a new array object.\<close>

definition new_array :: "ref list \<Rightarrow> heap \<Rightarrow> ref \<times> heap" where
  "new_array ts h =
     (let a = next_ref h in (a, h\<lparr>arrays := (arrays h)(a := ts), next_ref := Suc a\<rparr>))"

subsection \<open>What a call does: outcome and trace\<close>

text \<open>
  An \<^verbatim>\<open>async\<close> method returns a promise; \<open>outcome\<close> is how that promise settles. The
  trace lists, in order, the calls the method makes to its collaborators.
\<close>

datatype outcome = Resolved | Rejected JsError

datatype console_method = Console_debug | Console_info | Console_warn | Console_error

datatype event =
    EntryBuilt LogEntry
  | FormatterCalled LogEntry
  | FilterCalled LogEntry
  | WriteCalled ref LogEntry
  | Console console_method string
  | UnhandledRejection JsError

text \<open>The \<^verbatim>\<open>TypeError\<close> of calling or reading through \<^verbatim>\<open>undefined\<close> (its stack text is not modelled).\<close>

definition TypeError :: "string \<Rightarrow> JsError" where
  "TypeError msg = \<lparr>err_name = ''TypeError'', err_message = msg, stack = None\<rparr>"

section \<open>The Logger of src/src/index.ts\<close>

text \<open>
  \<^verbatim>\<open>Logger.defaultFormatter\<close>. Both conditions are JavaScript truthiness tests on an
  optional object: an object, also the empty one, is truthy; only the absent value is not.
\<close>

definition defaultFormatter :: "LogEntry \<Rightarrow> string" where
  "defaultFormatter entry =
     (let context_text =
            (case context entry of
               Some c \<Rightarrow> '' '' @ template (JSON_stringify (JObj c))
             | None \<Rightarrow> '''');
          error_text =
            (case error entry of
               Some e \<Rightarrow> '' '' @ template (stack e)
             | None \<Rightarrow> '''')
      in ''['' @ toISOString (timestamp entry) @ ''] '' @ toUpperCase (level_name (level entry))
         @ '': '' @ message entry @ context_text @ error_text)"

text \<open>
  The constructor copies the configuration into a new object and fills in the formatter
  and the filters (\<^verbatim>\<open>??\<close> takes the right-hand side when the left is absent).
\<close>

definition Logger_new :: "LoggerConfig \<Rightarrow> heap \<Rightarrow> ref \<times> heap" where
  "Logger_new config h =
     (let this = next_ref h;
          cfg = config
            \<lparr>formatter :=
               Some (case formatter config of
                       None \<Rightarrow> (\<lambda>entry. Inr (defaultFormatter entry))
                     | Some f \<Rightarrow> f),
             filters := Some (case filters config of None \<Rightarrow> [] | Some fs \<Rightarrow> fs)\<rparr>
      in (this, h\<lparr>loggers := (loggers h)(this := cfg), next_ref := Suc this\<rparr>))"

definition shouldLog :: "LoggerConfig \<Rightarrow> LogLevel \<Rightarrow> bool" where
  "shouldLog cfg lvl \<longleftrightarrow> LOG_LEVEL_PRIORITY lvl \<ge> LOG_LEVEL_PRIORITY (minLevel cfg)"

text \<open>
  \<^verbatim>\<open>Array.prototype.every\<close> over the filters: they are called in order on the same entry
  until one returns false; a filter that throws ends the call with its exception.
\<close>

fun every :: "(LogEntry \<Rightarrow> JsError + bool) list \<Rightarrow> LogEntry \<Rightarrow> (JsError + bool) \<times> event list" where
  "every [] e = (Inr True, [])"
| "every (f # fs) e =
     (case f e of
        Inl ex \<Rightarrow> (Inl ex, [FilterCalled e])
      | Inr False \<Rightarrow> (Inr False, [FilterCalled e])
      | Inr True \<Rightarrow> (case every fs e of (r, evs) \<Rightarrow> (r, FilterCalled e # evs)))"

text \<open>
  The fan-out \<^verbatim>\<open>transports.map(async transport => { try { await transport.write(e) } catch ... })\<close>.
  \<open>write_calls\<close> is the synchronous part: \<^verbatim>\<open>map\<close> runs each callback, in list order, up to
  its \<^verbatim>\<open>await\<close>; a \<^verbatim>\<open>write\<close> that throws is caught on the spot. \<open>caught_rejections\<close> is
  what follows once the promises have settled: each rejection is caught by the callback
  that awaits it (listed in list order). Every callback's promise fulfils, so
  \<^verbatim>\<open>Promise.all\<close> fulfils.
\<close>

definition report :: "JsError \<Rightarrow> event" where
  "report ex = Console Console_error (''Transport error: '' @ Error_toString ex)"

fun write_calls :: "(ref \<Rightarrow> LogEntry \<Rightarrow> write_result) \<Rightarrow> ref list \<Rightarrow> LogEntry \<Rightarrow> event list" where
  "write_calls tw [] e = []"
| "write_calls tw (t # ts) e =
     WriteCalled t e #
     (case tw t e of Throws ex \<Rightarrow> [report ex] | Rejects ex \<Rightarrow> [] | Fulfils \<Rightarrow> [])
     @ write_calls tw ts e"

fun caught_rejections :: "(ref \<Rightarrow> LogEntry \<Rightarrow> write_result) \<Rightarrow> ref list \<Rightarrow> LogEntry \<Rightarrow> event list" where
  "caught_rejections tw [] e = []"
| "caught_rejections tw (t # ts) e =
     (case tw t e of Rejects ex \<Rightarrow> [report ex] | Throws ex \<Rightarrow> [] | Fulfils \<Rightarrow> [])
     @ caught_rejections tw ts e"

definition writeToTransports :: "heap \<Rightarrow> LoggerConfig \<Rightarrow> LogEntry \<Rightarrow> outcome \<times> event list" where
  "writeToTransports h cfg entry =
     (case formatter cfg of
        None \<Rightarrow> (Rejected (TypeError ''this.config.formatter is not a function''), [])
      | Some fmt \<Rightarrow>
          (case fmt entry of
             Inl ex \<Rightarrow> (Rejected ex, [FormatterCalled entry])
           | Inr text \<Rightarrow>
               (let formattedEntry = entry\<lparr>message := text\<rparr> in
                case filters cfg of
                  None \<Rightarrow>
                    (Rejected (TypeError ''Cannot read properties of undefined (reading every)''),
                     [FormatterCalled entry])
                | Some fs \<Rightarrow>
                    (case every fs formattedEntry of
                       (Inl ex, evs) \<Rightarrow> (Rejected ex, FormatterCalled entry # evs)
                     | (Inr False, evs) \<Rightarrow> (Resolved, FormatterCalled entry # evs)
                     | (Inr True, evs) \<Rightarrow>
                         (let ts = arrays h (transports cfg) in
                          (Resolved,
                           FormatterCalled entry # evs
                           @ write_calls (transport_write h) ts formattedEntry
                           @ caught_rejections (transport_write h) ts formattedEntry))))))"

text \<open>
  \<^verbatim>\<open>Logger.log\<close>; \<open>now\<close> is the time value that \<^verbatim>\<open>new Date()\<close> reads from the clock.
\<close>

definition Logger_log ::
  "heap \<Rightarrow> ref \<Rightarrow> int \<Rightarrow> LogLevel \<Rightarrow> string \<Rightarrow> obj option \<Rightarrow> JsError option \<Rightarrow> outcome \<times> event list" where
  "Logger_log h this now lvl msg ctx err =
     (let cfg = loggers h this in
      if \<not> shouldLog cfg lvl then (Resolved, [])
      else
        (let entry =
               \<lparr>level = lvl, message = msg, timestamp = now,
                context = Some (spread (spread [] (defaultContext cfg)) ctx),
                error = err, tags = Some [], source = Some ''application''\<rparr>
         in case writeToTransports h cfg entry of (r, evs) \<Rightarrow> (r, EntryBuilt entry # evs)))"

text \<open>
  \<^verbatim>\<open>Logger.child\<close>: a new Logger from the spread of this Logger's configuration, with the
  default context replaced by the merge. The spread copies the field \<open>transports\<close>, that
  is the reference of the array.
\<close>

definition child :: "ref \<Rightarrow> obj \<Rightarrow> heap \<Rightarrow> ref \<times> heap" where
  "child this dc h =
     (let cfg = loggers h this in
      Logger_new (cfg\<lparr>defaultContext := Some (spread (spread [] (defaultContext cfg)) (Some dc))\<rparr>) h)"

text \<open>\<^verbatim>\<open>addTransport\<close> pushes onto the array object that the configuration refers to.\<close>

definition addTransport :: "ref \<Rightarrow> ref \<Rightarrow> heap \<Rightarrow> heap" where
  "addTransport this t h =
     (let a = transports (loggers h this) in h\<lparr>arrays := (arrays h)(a := arrays h a @ [t])\<rparr>)"

text \<open>
  \<^verbatim>\<open>removeTransport\<close>: \<^verbatim>\<open>Array.prototype.filter\<close> makes a new array of the elements that are
  not identical (\<^verbatim>\<open>!==\<close>) to the given transport, and the configuration's field is
  assigned the new array.
\<close>

definition removeTransport :: "ref \<Rightarrow> ref \<Rightarrow> heap \<Rightarrow> heap" where
  "removeTransport this t h =
     (let cfg = loggers h this;
          (a, h1) = new_array (filter (\<lambda>x. x \<noteq> t) (arrays h (transports cfg))) h
      in h1\<lparr>loggers := (loggers h1)(this := cfg\<lparr>transports := a\<rparr>)\<rparr>)"

text \<open>The transport list a Logger dispatches to.\<close>

definition transports_of :: "heap \<Rightarrow> ref \<Rightarrow> ref list" where
  "transports_of h this = arrays h (transports (loggers h this))"

section \<open>The Logger of the second variant (src/unnamed/part_000)\<close>

text \<open>
  \<^verbatim>\<open>Logger.log\<close> of the variant: it prints the message on the console method of the
  level, builds an entry from its arguments and calls \<^verbatim>\<open>write\<close> on each transport in a
  plain loop, with no \<^verbatim>\<open>await\<close> and no \<^verbatim>\<open>try\<close>. A \<^verbatim>\<open>write\<close> that throws ends the loop and
  rejects the promise of \<^verbatim>\<open>log\<close>; a promise that rejects has no handler.
\<close>

fun consoleFunction :: "LogLevel \<Rightarrow> console_method" where
  "consoleFunction Debug = Console_debug"
| "consoleFunction Info = Console_info"
| "consoleFunction Warn = Console_warn"
| "consoleFunction lvl = Console_error"

fun write_loop :: "(ref \<Rightarrow> LogEntry \<Rightarrow> write_result) \<Rightarrow> ref list \<Rightarrow> LogEntry \<Rightarrow> outcome \<times> event list \<times> event list" where
  "write_loop tw [] e = (Resolved, [], [])"
| "write_loop tw (t # ts) e =
     (case tw t e of
        Throws ex \<Rightarrow> (Rejected ex, [WriteCalled t e], [])
      | Rejects ex \<Rightarrow>
          (case write_loop tw ts e of
             (r, calls, unhandled) \<Rightarrow> (r, WriteCalled t e # calls, UnhandledRejection ex # unhandled))
      | Fulfils \<Rightarrow>
          (case write_loop tw ts e of
             (r, calls, unhandled) \<Rightarrow> (r, WriteCalled t e # calls, unhandled)))"

definition log_part000 ::
  "heap \<Rightarrow> LoggerConfig \<Rightarrow> int \<Rightarrow> LogLevel \<Rightarrow> string \<Rightarrow> obj option \<Rightarrow> outcome \<times> event list" where
  "log_part000 h config now lvl msg ctx =
     (let entry =
            \<lparr>level = lvl, message = msg, timestamp = now, context = ctx,
             error = None, tags = None, source = None\<rparr>
      in case write_loop (transport_write h) (arrays h (transports config)) entry of
           (r, calls, unhandled) \<Rightarrow>
             (r, Console (consoleFunction lvl) msg # EntryBuilt entry # calls @ unhandled))"

section \<open>Reading a trace\<close>

text \<open>The entries built, the arguments of the formatter and of the filters, and the writes.\<close>

fun entries_built :: "event list \<Rightarrow> LogEntry list" where
  "entries_built [] = []"
| "entries_built (EntryBuilt e # evs) = e # entries_built evs"
| "entries_built (ev # evs) = entries_built evs"

fun formatter_args :: "event list \<Rightarrow> LogEntry list" where
  "formatter_args [] = []"
| "formatter_args (FormatterCalled e # evs) = e # formatter_args evs"
| "formatter_args (ev # evs) = formatter_args evs"

fun filter_args :: "event list \<Rightarrow> LogEntry list" where
  "filter_args [] = []"
| "filter_args (FilterCalled e # evs) = e # filter_args evs"
| "filter_args (ev # evs) = filter_args evs"

fun writes :: "event list \<Rightarrow> (ref \<times> LogEntry) list" where
  "writes [] = []"
| "writes (WriteCalled t e # evs) = (t, e) # writes evs"
| "writes (ev # evs) = writes evs"

fun diagnostics :: "event list \<Rightarrow> string list" where
  "diagnostics [] = []"
| "diagnostics (Console Console_error s # evs) = s # diagnostics evs"
| "diagnostics (ev # evs) = diagnostics evs"

text \<open>The properties of an optional object as a map; the absent object has none.\<close>

definition props :: "obj option \<Rightarrow> (string \<rightharpoonup> jsval)" where
  "props ob = (case ob of None \<Rightarrow> Map.empty | Some ps \<Rightarrow> map_of ps)"

definition wf_opt :: "obj option \<Rightarrow> bool" where
  "wf_opt ob = (case ob of None \<Rightarrow> True | Some ps \<Rightarrow> wf_obj ps)"

section \<open>The example of the source\<close>

text \<open>
  The objects of \<^verbatim>\<open>example()\<close> in src/src/index.ts, and a few more transports: transport 0
  is a console transport (its \<^verbatim>\<open>write\<close> fulfils), transport 1 throws, transport 2 returns a
  promise that rejects, every other one fulfils.
\<close>

definition database_error :: JsError where
  "database_error =
     \<lparr>err_name = ''Error'', err_message = ''Database error'',
      stack = Some ''Error: Database error at example''\<rparr>"

definition store0 :: heap where
  "store0 =
     \<lparr>arrays = (\<lambda>a. []),
      loggers = (\<lambda>l. \<lparr>minLevel = Debug, transports = 0, defaultContext = None,
                        formatter = None, filters = None\<rparr>),
      transport_write =
        (\<lambda>t e. if t = 1 then Throws database_error
               else if t = 2 then Rejects database_error else Fulfils),
      next_ref = 0\<rparr>"

text \<open>\<^verbatim>\<open>String.prototype.includes\<close>.\<close>

definition str_includes :: "string \<Rightarrow> string \<Rightarrow> bool" where
  "str_includes s sub = list_ex (\<lambda>i. take (length sub) (drop i s) = sub) [0..<Suc (length s)]"

definition example_config :: "ref \<Rightarrow> LoggerConfig" where
  "example_config a =
     \<lparr>minLevel = Info, transports = a,
      defaultContext = Some [(''app'', JStr ''MyApp'')],
      formatter = None,
      filters = Some [\<lambda>entry. Inr (\<not> str_includes (message entry) ''password'')]\<rparr>"

text \<open>The store after \<^verbatim>\<open>new Logger({..., transports: [t1, ..., tn], ...})\<close>; the logger is 1, its array 0.\<close>

definition example_store :: "ref list \<Rightarrow> heap" where
  "example_store ts =
     (case new_array ts store0 of (a, h1) \<Rightarrow> snd (Logger_new (example_config a) h1))"

text \<open>The store after \<^verbatim>\<open>logger.child({ userId: '123' })\<close>; the child is 2.\<close>

definition example_child_store :: "ref list \<Rightarrow> heap" where
  "example_child_store ts = snd (child 1 [(''userId'', JStr ''123'')] (example_store ts))"

text \<open>A Logger made from the required options only: no default context, formatter or filters.\<close>

definition bare_store :: "ref list \<Rightarrow> heap" where
  "bare_store ts =
     (case new_array ts store0 of
        (a, h1) \<Rightarrow>
          snd (Logger_new \<lparr>minLevel = Debug, transports = a, defaultContext = None,
                           formatter = None, filters = None\<rparr> h1))"

section \<open>Lemmas about traces and about object spread\<close>

lemma entries_built_append: "entries_built (xs @ ys) = entries_built xs @ entries_built ys"
  by (induction xs rule: entries_built.induct) simp_all

lemma formatter_args_append: "formatter_args (xs @ ys) = formatter_args xs @ formatter_args ys"
  by (induction xs rule: formatter_args.induct) simp_all

lemma filter_args_append: "filter_args (xs @ ys) = filter_args xs @ filter_args ys"
  by (induction xs rule: filter_args.induct) simp_all

lemma writes_append: "writes (xs @ ys) = writes xs @ writes ys"
  by (induction xs rule: writes.induct) simp_all

lemma diagnostics_append: "diagnostics (xs @ ys) = diagnostics xs @ diagnostics ys"
  by (induction xs rule: diagnostics.induct) simp_all

lemma every_traceD:
  "every fs e = (r, evs) \<Longrightarrow>
     entries_built evs = [] \<and> formatter_args evs = [] \<and> writes evs = []
     \<and> diagnostics evs = [] \<and> (\<forall>x \<in> set (filter_args evs). x = e)"
proof (induction fs arbitrary: r evs)
  case Nil
  then show ?case by simp
next
  case (Cons f fs)
  show ?case
  proof (cases "f e")
    case (Inl ex)
    with Cons.prems show ?thesis by auto
  next
    case (Inr b)
    show ?thesis
    proof (cases b)
      case False
      with Inr Cons.prems show ?thesis by auto
    next
      case True
      obtain r' evs' where rec: "every fs e = (r', evs')" by (cases "every fs e")
      with Inr True Cons.prems have "evs = FilterCalled e # evs'" by simp
      with Cons.IH [OF rec] show ?thesis by simp
    qed
  qed
qed

lemma every_True: "fst (every fs e) = Inr True \<longleftrightarrow> (\<forall>f \<in> set fs. f e = Inr True)"
  by (induction fs) (auto split: sum.splits bool.splits prod.splits)

lemma write_calls_trace:
  "entries_built (write_calls tw ts e) = []"
  "formatter_args (write_calls tw ts e) = []"
  "filter_args (write_calls tw ts e) = []"
  "writes (write_calls tw ts e) = map (\<lambda>t. (t, e)) ts"
  by (induction ts; simp add: report_def entries_built_append formatter_args_append
        filter_args_append writes_append split: write_result.split)+

lemma caught_rejections_trace:
  "entries_built (caught_rejections tw ts e) = []"
  "formatter_args (caught_rejections tw ts e) = []"
  "filter_args (caught_rejections tw ts e) = []"
  "writes (caught_rejections tw ts e) = []"
  by (induction ts; simp add: report_def entries_built_append formatter_args_append
        filter_args_append writes_append split: write_result.split)+

lemma writeToTransports_builds_nothing:
  "entries_built (snd (writeToTransports h cfg entry)) = []"
  by (auto simp: writeToTransports_def Let_def entries_built_append write_calls_trace
      caught_rejections_trace split: option.split sum.split prod.split bool.split
      dest: every_traceD)

lemma Logger_log_built:
  assumes "shouldLog (loggers h this) lvl"
  shows "entries_built (snd (Logger_log h this now lvl msg ctx err)) =
     [\<lparr>level = lvl, message = msg, timestamp = now,
       context = Some (spread (spread [] (defaultContext (loggers h this))) ctx),
       error = err, tags = Some [], source = Some ''application''\<rparr>]"
proof -
  obtain r evs where w: "writeToTransports h (loggers h this)
      \<lparr>level = lvl, message = msg, timestamp = now,
       context = Some (spread (spread [] (defaultContext (loggers h this))) ctx),
       error = err, tags = Some [], source = Some ''application''\<rparr> = (r, evs)"
    by (cases "writeToTransports h (loggers h this)
      \<lparr>level = lvl, message = msg, timestamp = now,
       context = Some (spread (spread [] (defaultContext (loggers h this))) ctx),
       error = err, tags = Some [], source = Some ''application''\<rparr>")
  have "entries_built evs = []"
    using writeToTransports_builds_nothing [of h "loggers h this"] w
    by (metis snd_conv)
  with assms w show ?thesis by (simp add: Logger_log_def Let_def)
qed

lemma foldl_update_map_of:
  "distinct (map fst ps) \<Longrightarrow>
   map_of (foldl (\<lambda>acc (k, v). AList.update k v acc) t ps) = map_of t ++ map_of ps"
proof (induction ps arbitrary: t)
  case Nil
  show ?case by simp
next
  case (Cons p ps)
  obtain k v where p: "p = (k, v)" by (cases p)
  from Cons.prems p have k: "k \<notin> fst ` set ps" and d: "distinct (map fst ps)" by auto
  have "map_of (foldl (\<lambda>acc (k, v). AList.update k v acc) t (p # ps)) =
        map_of (AList.update k v t) ++ map_of ps"
    using Cons.IH [OF d] p by simp
  also have "\<dots> = (map_of t)(k \<mapsto> v) ++ map_of ps" by (simp add: update_conv')
  also have "\<dots> = map_of t ++ map_of ((k, v) # ps)"
  proof (rule ext)
    fix x
    from k have "map_of ps k = None" by (simp add: map_of_eq_None_iff)
    then show "((map_of t)(k \<mapsto> v) ++ map_of ps) x = (map_of t ++ map_of ((k, v) # ps)) x"
      by (simp add: map_add_def split: option.split)
  qed
  finally show ?case by (simp only: p)
qed

lemma foldl_update_distinct:
  "distinct (map fst t) \<Longrightarrow> distinct (map fst (foldl (\<lambda>acc (k, v). AList.update k v acc) t ps))"
  by (induction ps arbitrary: t) (auto simp: distinct_update)

lemma spread_props: "wf_opt src \<Longrightarrow> map_of (spread t src) = map_of t ++ props src"
  by (cases src) (simp_all add: spread_def props_def wf_opt_def wf_obj_def foldl_update_map_of)

lemma spread_wf: "wf_obj t \<Longrightarrow> wf_obj (spread t src)"
  by (cases src) (simp_all add: spread_def wf_obj_def foldl_update_distinct)

lemma merge_props:
  "wf_opt a \<Longrightarrow> wf_opt b \<Longrightarrow> map_of (spread (spread [] a) b) = props a ++ props b"
  by (simp add: spread_props)

lemma merge_wf: "wf_obj (spread (spread [] a) b)"
proof -
  have "wf_obj []" by (simp add: wf_obj_def)
  then show ?thesis by (intro spread_wf)
qed

section \<open>The level gate\<close>

text \<open>
  Claim C2. \<open>shouldLog\<close> holds exactly when the priority of the level is at least the
  priority of \<open>minLevel\<close>, the priorities being debug 0, info 1, warn 2, error 3, fatal 4;
  and a call of \<open>log\<close> below the minimum level resolves with an empty trace: no entry is
  built, the formatter and the filters are not called, and no transport is written to.
\<close>

theorem level_gate:
  "(shouldLog cfg lvl \<longleftrightarrow> LOG_LEVEL_PRIORITY lvl \<ge> LOG_LEVEL_PRIORITY (minLevel cfg))
   \<and> map LOG_LEVEL_PRIORITY [Debug, Info, Warn, Error, Fatal] = [0, 1, 2, 3, 4]
   \<and> (LOG_LEVEL_PRIORITY lvl < LOG_LEVEL_PRIORITY (minLevel (loggers h this)) \<longrightarrow>
        Logger_log h this now lvl msg ctx err = (Resolved, []))"
  by (simp add: shouldLog_def Logger_log_def Let_def)

theorem level_gate_witness:
  "LOG_LEVEL_PRIORITY Debug < LOG_LEVEL_PRIORITY (minLevel (loggers (example_store [0]) 1))
   \<and> Logger_log (example_store [0]) 1 0 Debug ''This is a debug message''
         (Some [(''environment'', JStr ''dev'')]) None = (Resolved, [])"
proof -
  have below: "LOG_LEVEL_PRIORITY Debug < LOG_LEVEL_PRIORITY (minLevel (loggers (example_store [0]) 1))"
    by code_simp
  with level_gate [of "loggers (example_store [0]) 1" Debug "example_store [0]" 1 0
      "''This is a debug message''" "Some [(''environment'', JStr ''dev'')]" None]
  show ?thesis by blast
qed

section \<open>Entry construction\<close>

text \<open>
  Claim C10. A call of \<open>log\<close> that passes the gate builds one entry; its context is
  always an object, namely the merge of the default context and the call-site context
  (the spread of the two into the empty object, which as a map is the default context
  overridden by the call-site context), and so the empty object when neither is given;
  its tags are the empty list and its source is the text \<open>application\<close>.
\<close>

theorem entry_fields_defined:
  assumes "shouldLog (loggers h this) lvl"
  shows "\<exists>entry c. entries_built (snd (Logger_log h this now lvl msg ctx err)) = [entry]
           \<and> context entry = Some c
           \<and> c = spread (spread [] (defaultContext (loggers h this))) ctx
           \<and> wf_obj c
           \<and> (wf_opt (defaultContext (loggers h this)) \<and> wf_opt ctx \<longrightarrow>
                 map_of c = props (defaultContext (loggers h this)) ++ props ctx)
           \<and> (defaultContext (loggers h this) = None \<and> ctx = None \<longrightarrow> c = [])
           \<and> tags entry = Some [] \<and> source entry = Some ''application''"
proof -
  let ?c = "spread (spread [] (defaultContext (loggers h this))) ctx"
  have m: "wf_opt (defaultContext (loggers h this)) \<and> wf_opt ctx \<longrightarrow>
        map_of ?c = props (defaultContext (loggers h this)) ++ props ctx"
    by (simp add: merge_props)
  have e: "defaultContext (loggers h this) = None \<and> ctx = None \<longrightarrow> ?c = []"
    by (simp add: spread_def)
  from Logger_log_built [OF assms, of now msg ctx err] m e merge_wf [of "defaultContext (loggers h this)" ctx]
  show ?thesis by simp
qed


theorem entry_fields_defined_witness:
  "shouldLog (loggers (bare_store [0]) 1) Info
   \<and> defaultContext (loggers (bare_store [0]) 1) = None
   \<and> (\<exists>entry. entries_built (snd (Logger_log (bare_store [0]) 1 0 Info ''x'' None None)) = [entry]
         \<and> context entry = Some [] \<and> tags entry = Some []
         \<and> source entry = Some ''application'')
   \<and> shouldLog (loggers (example_store [0]) 1) Info
   \<and> (\<exists>entry. entries_built (snd (Logger_log (example_store [0]) 1 0 Info ''Application started''
           (Some [(''version'', JStr ''1.0.0'')]) None)) = [entry]
         \<and> context entry = Some [(''app'', JStr ''MyApp''), (''version'', JStr ''1.0.0'')]
         \<and> tags entry = Some [] \<and> source entry = Some ''application'')"
proof -
  have gate: "shouldLog (loggers (bare_store [0]) 1) Info" by code_simp
  have dc: "defaultContext (loggers (bare_store [0]) 1) = None" by code_simp
  from entry_fields_defined [OF gate, of 0 "''x''" None None] dc
  have bare: "\<exists>entry. entries_built (snd (Logger_log (bare_store [0]) 1 0 Info ''x'' None None)) = [entry]
         \<and> context entry = Some [] \<and> tags entry = Some []
         \<and> source entry = Some ''application''"
    by auto
  have gate2: "shouldLog (loggers (example_store [0]) 1) Info" by code_simp
  have sp: "spread (spread [] (defaultContext (loggers (example_store [0]) 1)))
        (Some [(''version'', JStr ''1.0.0'')]) =
      [(''app'', JStr ''MyApp''), (''version'', JStr ''1.0.0'')]"
    by code_simp
  from entry_fields_defined [OF gate2, of 0 "''Application started''"
      "Some [(''version'', JStr ''1.0.0'')]" None]
  have ex: "\<exists>entry. entries_built (snd (Logger_log (example_store [0]) 1 0 Info ''Application started''
           (Some [(''version'', JStr ''1.0.0'')]) None)) = [entry]
         \<and> context entry = Some [(''app'', JStr ''MyApp''), (''version'', JStr ''1.0.0'')]
         \<and> tags entry = Some [] \<and> source entry = Some ''application''"
    unfolding sp by blast
  from gate dc bare gate2 ex show ?thesis by blast
qed

text \<open>
  Claim C5. The context of the entry that a call of \<open>log\<close> builds is the merge of the
  default context and then the call-site context: as a map it is the default context
  overridden by the call-site context, so a key that both define has the call-site value.
\<close>

theorem context_merge:
  assumes "shouldLog (loggers h this) lvl"
    and "wf_opt (defaultContext (loggers h this))" and "wf_opt ctx"
  shows "\<exists>entry c. entries_built (snd (Logger_log h this now lvl msg ctx err)) = [entry]
           \<and> context entry = Some c \<and> wf_obj c
           \<and> map_of c = props (defaultContext (loggers h this)) ++ props ctx
           \<and> (\<forall>k \<in> dom (props (defaultContext (loggers h this))) \<inter> dom (props ctx).
                 map_of c k = props ctx k)"
proof -
  let ?c = "spread (spread [] (defaultContext (loggers h this))) ctx"
  have m: "map_of ?c = props (defaultContext (loggers h this)) ++ props ctx"
    using assms(2,3) by (rule merge_props)
  have "\<forall>k \<in> dom (props (defaultContext (loggers h this))) \<inter> dom (props ctx).
          map_of ?c k = props ctx k"
    by (auto simp: m map_add_def)
  with m merge_wf Logger_log_built [OF assms(1)] show ?thesis by simp
qed

theorem context_merge_witness:
  "shouldLog (loggers (example_store [0]) 1) Info
   \<and> wf_opt (defaultContext (loggers (example_store [0]) 1))
   \<and> wf_opt (Some [(''app'', JStr ''Other''), (''version'', JStr ''1.0.0'')])
   \<and> ''app'' \<in> dom (props (defaultContext (loggers (example_store [0]) 1)))
         \<inter> dom (props (Some [(''app'', JStr ''Other''), (''version'', JStr ''1.0.0'')]))
   \<and> (\<exists>entry c. entries_built (snd (Logger_log (example_store [0]) 1 0 Info ''Application started''
           (Some [(''app'', JStr ''Other''), (''version'', JStr ''1.0.0'')]) None)) = [entry]
         \<and> context entry = Some c \<and> map_of c ''app'' = Some (JStr ''Other''))"
proof -
  let ?ctx = "Some [(''app'', JStr ''Other''), (''version'', JStr ''1.0.0'')]"
  have gate: "shouldLog (loggers (example_store [0]) 1) Info" by code_simp
  have wd: "wf_opt (defaultContext (loggers (example_store [0]) 1))" by code_simp
  have wc: "wf_opt ?ctx" by code_simp
  have dc: "defaultContext (loggers (example_store [0]) 1) = Some [(''app'', JStr ''MyApp'')]"
    by code_simp
  have both: "''app'' \<in> dom (props (defaultContext (loggers (example_store [0]) 1)))
         \<inter> dom (props ?ctx)"
    unfolding dc by (simp add: props_def)
  have v: "props ?ctx ''app'' = Some (JStr ''Other'')" by (simp add: props_def)
  from context_merge [OF gate wd wc, of 0 "''Application started''" None] both v
  have "\<exists>entry c. entries_built (snd (Logger_log (example_store [0]) 1 0 Info ''Application started''
           ?ctx None)) = [entry]
         \<and> context entry = Some c \<and> map_of c ''app'' = Some (JStr ''Other'')"
    by metis
  with gate wd wc both show ?thesis by blast
qed

section \<open>Formatting and filtering\<close>

text \<open>What \<open>writeToTransports\<close> does once the formatter has returned, by the result of the filters.\<close>

lemma writeToTransports_passed:
  assumes "formatter cfg = Some fmt" and "fmt entry = Inr rendered" and "filters cfg = Some fs"
    and "every fs (entry\<lparr>message := rendered\<rparr>) = (r, evs)"
  shows "writeToTransports h cfg entry =
     (case r of
        Inl ex \<Rightarrow> (Rejected ex, FormatterCalled entry # evs)
      | Inr False \<Rightarrow> (Resolved, FormatterCalled entry # evs)
      | Inr True \<Rightarrow>
          (Resolved,
           FormatterCalled entry # evs
           @ write_calls (transport_write h) (arrays h (transports cfg)) (entry\<lparr>message := rendered\<rparr>)
           @ caught_rejections (transport_write h) (arrays h (transports cfg)) (entry\<lparr>message := rendered\<rparr>)))"
  using assms by (simp add: writeToTransports_def Let_def split: sum.split bool.split)

text \<open>
  Claim C3. For a formatted entry and the configured filters, the entry is written to the
  transports exactly when every filter returns true on it: then every registered
  transport is written the formatted entry, in list order; if some filter does not
  return true, no transport at all is written to.
\<close>

theorem filters_decide_delivery:
  assumes "formatter cfg = Some fmt" and "fmt entry = Inr rendered" and "filters cfg = Some fs"
  shows "writes (snd (writeToTransports h cfg entry)) =
     (if \<forall>f \<in> set fs. f (entry\<lparr>message := rendered\<rparr>) = Inr True
      then map (\<lambda>t. (t, entry\<lparr>message := rendered\<rparr>)) (arrays h (transports cfg))
      else [])"
proof -
  let ?fe = "entry\<lparr>message := rendered\<rparr>"
  obtain r evs where ev: "every fs ?fe = (r, evs)" by (cases "every fs ?fe")
  have w: "writes evs = []" using every_traceD [OF ev] by simp
  have t: "r = Inr True \<longleftrightarrow> (\<forall>f \<in> set fs. f ?fe = Inr True)"
    using every_True [of fs ?fe] ev by simp
  show ?thesis
  proof (cases r)
    case (Inl ex)
    with t w show ?thesis
      by (auto simp: writeToTransports_passed [OF assms ev])
  next
    case (Inr b)
    with t w show ?thesis
      by (cases b)
        (auto simp: writeToTransports_passed [OF assms ev] writes_append
          write_calls_trace caught_rejections_trace)
  qed
qed

text \<open>The formatter sees the entry as built; filters and transports see the formatted one.\<close>

lemma writeToTransports_observed:
  assumes "formatter cfg = Some fmt" and "fmt entry = Inr rendered"
    and "writeToTransports h cfg entry = (r, evs)"
  shows "formatter_args evs = [entry]
     \<and> (\<forall>x \<in> set (filter_args evs). x = entry\<lparr>message := rendered\<rparr>)
     \<and> (\<forall>p \<in> set (writes evs). snd p = entry\<lparr>message := rendered\<rparr>)"
proof (cases "filters cfg")
  case None
  with assms show ?thesis by (auto simp: writeToTransports_def Let_def)
next
  case (Some fs)
  let ?fe = "entry\<lparr>message := rendered\<rparr>"
  obtain r' evs' where ev: "every fs ?fe = (r', evs')" by (cases "every fs ?fe")
  note tr = every_traceD [OF ev]
  from assms(3) show ?thesis
    unfolding writeToTransports_passed [OF assms(1,2) Some ev]
    using tr
    by (auto simp: formatter_args_append filter_args_append writes_append
        write_calls_trace caught_rejections_trace split: sum.splits bool.splits)
qed

text \<open>
  Claim C4. For an entry that passes the level gate, the formatter is called on the
  entry as built; the formatted entry is that entry with the message replaced by the
  formatter's result and every other field as it was; and each filter call and each
  transport write gets the formatted entry.
\<close>

theorem formatted_entry_observed:
  assumes "shouldLog (loggers h this) lvl"
    and "formatter (loggers h this) = Some fmt"
    and "Logger_log h this now lvl msg ctx err = (r, evs)"
    and "entries_built evs = [entry]"
    and "fmt entry = Inr rendered"
  shows "formatter_args evs = [entry]
     \<and> (\<forall>x \<in> set (filter_args evs). x = entry\<lparr>message := rendered\<rparr>)
     \<and> (\<forall>p \<in> set (writes evs). snd p = entry\<lparr>message := rendered\<rparr>)
     \<and> entry\<lparr>message := rendered\<rparr> =
         \<lparr>level = level entry, message = rendered, timestamp = timestamp entry,
          context = context entry, error = error entry, tags = tags entry,
          source = source entry\<rparr>"
proof -
  let ?e = "\<lparr>level = lvl, message = msg, timestamp = now,
       context = Some (spread (spread [] (defaultContext (loggers h this))) ctx),
       error = err, tags = Some [], source = Some ''application''\<rparr>"
  from Logger_log_built [OF assms(1), of now msg ctx err] assms(3,4)
  have e: "entry = ?e" by simp
  obtain r' evs' where w: "writeToTransports h (loggers h this) ?e = (r', evs')"
    by (cases "writeToTransports h (loggers h this) ?e")
  with assms(1,3) have evs: "evs = EntryBuilt ?e # evs'"
    by (simp add: Logger_log_def Let_def)
  from writeToTransports_observed [OF assms(2) _ w, of rendered] assms(5) e
  show ?thesis unfolding evs e by simp
qed

text \<open>The example store, evaluated.\<close>

lemma example_store_logger:
  "loggers (example_store ts) (Suc 0) =
     \<lparr>minLevel = Info, transports = 0,
      defaultContext = Some [(''app'', JStr ''MyApp'')],
      formatter = Some (\<lambda>entry. Inr (defaultFormatter entry)),
      filters = Some [\<lambda>entry. Inr (\<not> str_includes (message entry) ''password'')]\<rparr>"
  "arrays (example_store ts) 0 = ts"
  "transport_write (example_store ts) = transport_write store0"
  "next_ref (example_store ts) = Suc (Suc 0)"
  by (simp_all add: example_store_def new_array_def Logger_new_def example_config_def
      store0_def Let_def)

theorem filters_decide_delivery_witness:
  "formatter (loggers (example_store [0, 3]) 1) = Some (\<lambda>entry. Inr (defaultFormatter entry))
   \<and> filters (loggers (example_store [0, 3]) 1) =
       Some [\<lambda>entry. Inr (\<not> str_includes (message entry) ''password'')]
   \<and> writes (snd (writeToTransports (example_store [0, 3]) (loggers (example_store [0, 3]) 1)
         \<lparr>level = Info, message = ''my password'', timestamp = 0, context = Some [],
          error = None, tags = Some [], source = Some ''application''\<rparr>)) = []
   \<and> map fst (writes (snd (writeToTransports (example_store [0, 3]) (loggers (example_store [0, 3]) 1)
         \<lparr>level = Info, message = ''Application started'', timestamp = 0, context = Some [],
          error = None, tags = Some [], source = Some ''application''\<rparr>))) = [0, 3]"
proof -
  let ?h = "example_store [0, 3]"
  let ?fmt = "\<lambda>entry. Inr (defaultFormatter entry) :: JsError + string"
  let ?flt = "\<lambda>entry. Inr (\<not> str_includes (message entry) ''password'') :: JsError + bool"
  let ?e1 = "\<lparr>level = Info, message = ''my password'', timestamp = 0, context = Some [],
          error = None, tags = Some [], source = Some ''application''\<rparr>"
  let ?e2 = "\<lparr>level = Info, message = ''Application started'', timestamp = 0, context = Some [],
          error = None, tags = Some [], source = Some ''application''\<rparr>"
  have f: "formatter (loggers ?h 1) = Some ?fmt" by (simp add: example_store_logger)
  have g: "filters (loggers ?h 1) = Some [?flt]" by (simp add: example_store_logger)
  have r1: "?fmt ?e1 = Inr (defaultFormatter ?e1)" by simp
  have r2: "?fmt ?e2 = Inr (defaultFormatter ?e2)" by simp
  have no: "str_includes (defaultFormatter ?e1) ''password''" by code_simp
  have yes: "\<not> str_includes (defaultFormatter ?e2) ''password''" by code_simp
  have ts: "arrays ?h (transports (loggers ?h 1)) = [0, 3]" by (simp add: example_store_logger)
  from filters_decide_delivery [OF f r1 g, of ?h] no
  have w1: "writes (snd (writeToTransports ?h (loggers ?h 1) ?e1)) = []" by simp
  from filters_decide_delivery [OF f r2 g, of ?h] yes ts
  have w2: "map fst (writes (snd (writeToTransports ?h (loggers ?h 1) ?e2))) = [0, 3]" by simp
  from f g w1 w2 show ?thesis by blast
qed

theorem formatted_entry_observed_witness:
  "shouldLog (loggers (example_store [0]) 1) Info
   \<and> formatter (loggers (example_store [0]) 1) = Some (\<lambda>entry. Inr (defaultFormatter entry))
   \<and> entries_built (snd (Logger_log (example_store [0]) 1 0 Info ''Application started''
         (Some [(''version'', JStr ''1.0.0'')]) None)) =
       [\<lparr>level = Info, message = ''Application started'', timestamp = 0,
         context = Some [(''app'', JStr ''MyApp''), (''version'', JStr ''1.0.0'')],
         error = None, tags = Some [], source = Some ''application''\<rparr>]
   \<and> filter_args (snd (Logger_log (example_store [0]) 1 0 Info ''Application started''
         (Some [(''version'', JStr ''1.0.0'')]) None)) =
       [\<lparr>level = Info, message = ''Application started'', timestamp = 0,
         context = Some [(''app'', JStr ''MyApp''), (''version'', JStr ''1.0.0'')],
         error = None, tags = Some [], source = Some ''application''\<rparr>
        \<lparr>message := defaultFormatter
           \<lparr>level = Info, message = ''Application started'', timestamp = 0,
            context = Some [(''app'', JStr ''MyApp''), (''version'', JStr ''1.0.0'')],
            error = None, tags = Some [], source = Some ''application''\<rparr>\<rparr>]
   \<and> map snd (writes (snd (Logger_log (example_store [0]) 1 0 Info ''Application started''
         (Some [(''version'', JStr ''1.0.0'')]) None))) =
       [\<lparr>level = Info, message = ''Application started'', timestamp = 0,
         context = Some [(''app'', JStr ''MyApp''), (''version'', JStr ''1.0.0'')],
         error = None, tags = Some [], source = Some ''application''\<rparr>
        \<lparr>message := defaultFormatter
           \<lparr>level = Info, message = ''Application started'', timestamp = 0,
            context = Some [(''app'', JStr ''MyApp''), (''version'', JStr ''1.0.0'')],
            error = None, tags = Some [], source = Some ''application''\<rparr>\<rparr>]"
proof -
  let ?h = "example_store [0]"
  let ?fmt = "\<lambda>entry. Inr (defaultFormatter entry) :: JsError + string"
  let ?run = "Logger_log ?h 1 0 Info ''Application started'' (Some [(''version'', JStr ''1.0.0'')]) None"
  let ?e = "\<lparr>level = Info, message = ''Application started'', timestamp = 0,
         context = Some [(''app'', JStr ''MyApp''), (''version'', JStr ''1.0.0'')],
         error = None, tags = Some [], source = Some ''application''\<rparr>"
  have gate: "shouldLog (loggers ?h 1) Info" by code_simp
  have f: "formatter (loggers ?h 1) = Some ?fmt" by (simp add: example_store_logger)
  have run: "?run = (fst ?run, snd ?run)" by simp
  have built: "entries_built (snd ?run) = [?e]" by code_simp
  have r: "?fmt ?e = Inr (defaultFormatter ?e)" by simp
  have "length (filter_args (snd ?run)) = 1" by code_simp
  then obtain x where x: "filter_args (snd ?run) = [x]"
    by (cases "filter_args (snd ?run)") auto
  have "length (writes (snd ?run)) = 1" by code_simp
  then obtain p where p: "writes (snd ?run) = [p]"
    by (cases "writes (snd ?run)") auto
  note obs = formatted_entry_observed [OF gate f run built r]
  from obs x have fa: "filter_args (snd ?run) = [?e\<lparr>message := defaultFormatter ?e\<rparr>]"
    by auto
  from obs p have wa: "map snd (writes (snd ?run)) = [?e\<lparr>message := defaultFormatter ?e\<rparr>]"
    by auto
  from gate f built fa wa show ?thesis by blast
qed

section \<open>The transport registry and child loggers\<close>

text \<open>What \<open>child\<close>, \<open>removeTransport\<close> and \<open>addTransport\<close> change in the store.\<close>

lemma child_store:
  assumes "child this dc h = (c, h')"
  shows "c = next_ref h"
    and "next_ref h' = Suc (next_ref h)"
    and "arrays h' = arrays h"
    and "transport_write h' = transport_write h"
    and "transports (loggers h' c) = transports (loggers h this)"
    and "minLevel (loggers h' c) = minLevel (loggers h this)"
    and "defaultContext (loggers h' c) =
           Some (spread (spread [] (defaultContext (loggers h this))) (Some dc))"
    and "l \<noteq> next_ref h \<Longrightarrow> loggers h' l = loggers h l"
  using assms by (auto simp: child_def Logger_new_def Let_def)

lemma removeTransport_store:
  "transports_of (removeTransport this t h) this = filter (\<lambda>x. x \<noteq> t) (transports_of h this)"
  "transport_write (removeTransport this t h) = transport_write h"
  "l \<noteq> this \<Longrightarrow> loggers (removeTransport this t h) l = loggers h l"
  "a \<noteq> next_ref h \<Longrightarrow> arrays (removeTransport this t h) a = arrays h a"
  "transports (loggers (removeTransport this t h) this) = next_ref h"
  "next_ref (removeTransport this t h) = Suc (next_ref h)"
  by (simp_all add: removeTransport_def new_array_def transports_of_def Let_def)

lemma addTransport_store:
  "loggers (addTransport this t h) = loggers h"
  "arrays (addTransport this t h) a =
     (if a = transports (loggers h this) then arrays h a @ [t] else arrays h a)"
  "next_ref (addTransport this t h) = next_ref h"
  by (simp_all add: addTransport_def Let_def)

text \<open>
  Claim C8. \<open>removeTransport\<close> leaves in the Logger's list exactly the elements that are
  not the given reference: every other reference keeps all its occurrences, whatever its
  \<^verbatim>\<open>write\<close> does, and the given one has none left. If the given transport is not in the
  list, the list and its length are what they were. The operation is a total function on
  stores: it has no failing case.
\<close>

theorem removeTransport_by_identity:
  "transports_of (removeTransport this t h) this = filter (\<lambda>x. x \<noteq> t) (transports_of h this)
   \<and> (\<forall>u. u \<noteq> t \<longrightarrow>
          count_list (transports_of (removeTransport this t h) this) u =
          count_list (transports_of h this) u)
   \<and> count_list (transports_of (removeTransport this t h) this) t = 0
   \<and> (t \<notin> set (transports_of h this) \<longrightarrow>
          transports_of (removeTransport this t h) this = transports_of h this
          \<and> length (transports_of (removeTransport this t h) this) = length (transports_of h this))"
proof -
  have c: "u \<noteq> t \<Longrightarrow> count_list (filter (\<lambda>x. x \<noteq> t) xs) u = count_list xs u" for u xs
    by (induction xs) auto
  have z: "count_list (filter (\<lambda>x. x \<noteq> t) xs) t = 0" for xs
    by (induction xs) auto
  have n: "t \<notin> set xs \<Longrightarrow> filter (\<lambda>x. x \<noteq> t) xs = xs" for xs
    by (induction xs) auto
  show ?thesis
    by (simp add: removeTransport_store(1) c z n)
qed

theorem removeTransport_by_identity_witness:
  "transport_write (example_store [0, 3, 0]) 0 = transport_write (example_store [0, 3, 0]) 3
   \<and> transports_of (removeTransport 1 3 (example_store [0, 3, 0])) 1 = [0, 0]
   \<and> 5 \<notin> set (transports_of (example_store [0, 3, 0]) 1)
   \<and> transports_of (removeTransport 1 5 (example_store [0, 3, 0])) 1 = [0, 3, 0]"
proof -
  let ?h = "example_store [0, 3, 0]"
  have ts: "transports_of ?h (Suc 0) = [0, 3, 0]" by code_simp
  have same: "transport_write ?h 0 = transport_write ?h 3"
    by (rule ext) (simp add: example_store_logger store0_def)
  have absent: "5 \<notin> set (transports_of ?h 1)" by (simp add: ts)
  from removeTransport_by_identity [of 1 3 ?h]
  have r3: "transports_of (removeTransport 1 3 ?h) 1 = [0, 0]" by (simp add: ts)
  from removeTransport_by_identity [of 1 5 ?h] absent
  have r5: "transports_of (removeTransport 1 5 ?h) 1 = [0, 3, 0]" by (simp add: ts)
  from same r3 absent r5 show ?thesis by blast
qed

text \<open>
  Two Loggers whose configurations refer to different arrays do not see each other's
  additions and removals, and they stay that way.
\<close>

lemma unshared_lists_independent:
  assumes "l1 \<noteq> l2" and "transports (loggers g l1) \<noteq> transports (loggers g l2)"
    and "transports (loggers g l1) < next_ref g" and "transports (loggers g l2) < next_ref g"
  shows "transports_of (addTransport l1 u g) l2 = transports_of g l2"
    and "transports_of (removeTransport l1 t g) l2 = transports_of g l2"
    and "transports (loggers (addTransport l1 u g) l1) \<noteq> transports (loggers (addTransport l1 u g) l2)"
    and "transports (loggers (removeTransport l1 t g) l1) \<noteq> transports (loggers (removeTransport l1 t g) l2)"
    and "transports (loggers (addTransport l1 u g) l1) < next_ref (addTransport l1 u g)"
    and "transports (loggers (addTransport l1 u g) l2) < next_ref (addTransport l1 u g)"
    and "transports (loggers (removeTransport l1 t g) l1) < next_ref (removeTransport l1 t g)"
    and "transports (loggers (removeTransport l1 t g) l2) < next_ref (removeTransport l1 t g)"
  using assms
  by (simp_all add: transports_of_def addTransport_store removeTransport_store(2-6))

text \<open>
  Claim C6 says that the child's transport list is a copy, so that adding to one list
  leaves the other as it was. In the example, the parent's list is \<open>[0]\<close> after
  \<^verbatim>\<open>logger.child({ userId: '123' })\<close>, and \<open>[0, 3]\<close> once the child has added transport 3.
\<close>

theorem child_shares_transport_array:
  "transports_of (example_child_store [0]) 1 = [0]
   \<and> transports_of (addTransport 2 3 (example_child_store [0])) 1 = [0, 3]"
  by code_simp

text \<open>
  Claim C6, amended. The child's configuration refers to the parent's own array object,
  with the same transport references in it. \<open>removeTransport\<close> on either Logger gives that
  Logger a new array, the filtered list, and leaves the other's list unchanged;
  \<open>addTransport\<close> on either Logger, while they share the array, appends to the list of
  both. Once either Logger has a new array from \<open>removeTransport\<close>, an addition on either
  Logger appends to that Logger's own list only and no longer reaches the other.
\<close>

theorem child_transport_list:
  assumes "this < next_ref h" and "transports (loggers h this) < next_ref h"
    and "child this dc h = (c, h')"
  shows "c \<noteq> this
     \<and> transports (loggers h' c) = transports (loggers h' this)
     \<and> transports_of h' this = transports_of h this
     \<and> transports_of h' c = transports_of h this
     \<and> transports_of (removeTransport c t h') this = transports_of h' this
     \<and> transports_of (removeTransport c t h') c = filter (\<lambda>x. x \<noteq> t) (transports_of h' c)
     \<and> transports_of (removeTransport this t h') c = transports_of h' c
     \<and> transports_of (removeTransport this t h') this = filter (\<lambda>x. x \<noteq> t) (transports_of h' this)
     \<and> transports_of (addTransport c t h') this = transports_of h' this @ [t]
     \<and> transports_of (addTransport c t h') c = transports_of h' c @ [t]
     \<and> transports_of (addTransport this t h') c = transports_of h' c @ [t]
     \<and> transports_of (addTransport this t h') this = transports_of h' this @ [t]
     \<and> transports_of (addTransport c u (removeTransport c t h')) this = transports_of h' this
     \<and> transports_of (addTransport c u (removeTransport c t h')) c =
           filter (\<lambda>x. x \<noteq> t) (transports_of h' c) @ [u]
     \<and> transports_of (addTransport this u (removeTransport c t h')) c =
           filter (\<lambda>x. x \<noteq> t) (transports_of h' c)
     \<and> transports_of (addTransport this u (removeTransport c t h')) this =
           transports_of h' this @ [u]
     \<and> transports_of (addTransport this u (removeTransport this t h')) c = transports_of h' c
     \<and> transports_of (addTransport this u (removeTransport this t h')) this =
           filter (\<lambda>x. x \<noteq> t) (transports_of h' this) @ [u]
     \<and> transports_of (addTransport c u (removeTransport this t h')) this =
           filter (\<lambda>x. x \<noteq> t) (transports_of h' this)
     \<and> transports_of (addTransport c u (removeTransport this t h')) c =
           transports_of h' c @ [u]"
proof -
  note cs = child_store [OF assms(3)]
  from assms(1) cs(1) have ne: "c \<noteq> this" "this \<noteq> c" "this \<noteq> next_ref h" by simp_all
  have p: "loggers h' this = loggers h this" using cs(8) [OF ne(3)] .
  let ?a = "transports (loggers h this)"
  have a: "transports (loggers h' c) = ?a" "transports (loggers h' this) = ?a"
    using cs(5) p by simp_all
  have fresh: "?a \<noteq> next_ref h'" "next_ref h' \<noteq> ?a" using assms(2) cs(2) by simp_all
  note st = transports_of_def addTransport_store removeTransport_store(2-6) a
  have 1: "transports_of h' this = transports_of h this" "transports_of h' c = transports_of h this"
    by (simp_all add: transports_of_def a cs(3))
  have 2: "transports_of (removeTransport c t h') this = transports_of h' this"
    "transports_of (removeTransport this t h') c = transports_of h' c"
    using ne fresh by (simp_all add: st)
  note 3 = removeTransport_store(1) [of c t h'] removeTransport_store(1) [of this t h']
  have 4: "transports_of (addTransport c t h') this = transports_of h' this @ [t]"
    "transports_of (addTransport c t h') c = transports_of h' c @ [t]"
    "transports_of (addTransport this t h') c = transports_of h' c @ [t]"
    "transports_of (addTransport this t h') this = transports_of h' this @ [t]"
    by (simp_all add: st)
  have 5: "transports_of (addTransport c u (removeTransport c t h')) this = transports_of h' this"
    "transports_of (addTransport this u (removeTransport this t h')) c = transports_of h' c"
    using ne fresh by (simp_all add: st)
  have 6: "transports_of (addTransport c u (removeTransport c t h')) c =
           filter (\<lambda>x. x \<noteq> t) (transports_of h' c) @ [u]"
    using ne fresh 3(1) by (simp add: st)
  have 7: "transports_of (addTransport this u (removeTransport c t h')) c =
           filter (\<lambda>x. x \<noteq> t) (transports_of h' c)"
    using ne fresh 3(1) by (simp add: st)
  have 8: "transports_of (addTransport this u (removeTransport c t h')) this =
           transports_of h' this @ [u]"
    using ne fresh by (simp add: st)
  have 9: "transports_of (addTransport this u (removeTransport this t h')) this =
           filter (\<lambda>x. x \<noteq> t) (transports_of h' this) @ [u]"
    using ne fresh 3(2) by (simp add: st)
  have 10: "transports_of (addTransport c u (removeTransport this t h')) this =
           filter (\<lambda>x. x \<noteq> t) (transports_of h' this)"
    using ne fresh 3(2) by (simp add: st)
  have 11: "transports_of (addTransport c u (removeTransport this t h')) c =
           transports_of h' c @ [u]"
    using ne fresh by (simp add: st)
  from ne(1) a 1 2 3 4 5 6 7 8 9 10 11 show ?thesis by simp
qed

theorem child_transport_list_witness:
  "(1::nat) < next_ref (example_store [0])
   \<and> transports (loggers (example_store [0]) 1) < next_ref (example_store [0])
   \<and> child 1 [(''userId'', JStr ''123'')] (example_store [0]) = (2, example_child_store [0])
   \<and> transports_of (example_child_store [0]) 2 = [0]
   \<and> transports_of (removeTransport 2 0 (example_child_store [0])) 1 = [0]
   \<and> transports_of (addTransport 1 3 (example_child_store [0])) 2 = [0, 3]"
proof -
  let ?h = "example_store [0]"
  let ?dc = "[(''userId'', JStr ''123'')]"
  have a: "(1::nat) < next_ref ?h" by (simp add: example_store_logger)
  have b: "transports (loggers ?h 1) < next_ref ?h" by (simp add: example_store_logger)
  have "fst (child 1 ?dc ?h) = 2"
    by (simp add: child_def Logger_new_def Let_def example_store_logger)
  then have c: "child 1 ?dc ?h = (2, example_child_store [0])"
    by (simp add: example_child_store_def prod_eq_iff)
  have ts: "transports_of ?h (Suc 0) = [0]" by code_simp
  from child_transport_list [OF a b c, of 0] ts
  have r: "transports_of (example_child_store [0]) 2 = [0]"
    "transports_of (removeTransport 2 0 (example_child_store [0])) 1 = [0]"
    by simp_all
  from child_transport_list [OF a b c, of 3] ts
  have s: "transports_of (addTransport 1 3 (example_child_store [0])) 2 = [0, 3]"
    by simp
  from a b c r s show ?thesis by blast
qed

section \<open>The default context of a child logger\<close>

text \<open>
  Claim C7 says that a log call on the child yields an entry whose context maps every key
  of the extra context to the extra context's value. In the example the child is made
  with \<^verbatim>\<open>{ userId: '123' }\<close> and its default context has that value, but a call that
  passes \<^verbatim>\<open>{ userId: '456' }\<close> as call-site context builds an entry with the call-site
  value. The claim also says that the parent's entries do not have the keys of the extra
  context; after \<^verbatim>\<open>logger.child({ app: 'Other' })\<close> the parent's entries still have the
  key \<^verbatim>\<open>app\<close>, from the parent's own default context.
\<close>

theorem child_context_overridden_at_call_site:
  "defaultContext (loggers (example_child_store [0]) 2) =
     Some [(''app'', JStr ''MyApp''), (''userId'', JStr ''123'')]
   \<and> entries_built (snd (Logger_log (example_child_store [0]) 2 0 Error ''Failed to save''
         (Some [(''userId'', JStr ''456'')]) (Some database_error))) =
     [\<lparr>level = Error, message = ''Failed to save'', timestamp = 0,
       context = Some [(''app'', JStr ''MyApp''), (''userId'', JStr ''456'')],
       error = Some database_error, tags = Some [], source = Some ''application''\<rparr>]
   \<and> entries_built (snd (Logger_log (snd (child 1 [(''app'', JStr ''Other'')] (example_store [0])))
         1 0 Info ''Application started'' None None)) =
     [\<lparr>level = Info, message = ''Application started'', timestamp = 0,
       context = Some [(''app'', JStr ''MyApp'')],
       error = None, tags = Some [], source = Some ''application''\<rparr>]"
  by code_simp

text \<open>A call of \<open>log\<close> reads the Logger's configuration, the arrays and the transports only.\<close>

lemma writeToTransports_cong:
  assumes "arrays h' = arrays h" and "transport_write h' = transport_write h"
  shows "writeToTransports h' cfg e = writeToTransports h cfg e"
  unfolding writeToTransports_def assms ..

lemma Logger_log_cong:
  assumes "loggers h' this = loggers h this" and "arrays h' = arrays h"
    and "transport_write h' = transport_write h"
  shows "Logger_log h' this now lvl msg ctx err = Logger_log h this now lvl msg ctx err"
  unfolding Logger_log_def assms(1) writeToTransports_cong [OF assms(2,3)] ..

text \<open>
  Claim C7, amended. The default context of \<open>child extra\<close> is the parent's default context
  overridden by the extra context. A log call on the child that passes the gate builds
  an entry whose context maps each key of the extra context to the extra context's
  value unless the call-site context defines the key, in which case it has the call-site
  value; the context also has every key of the parent's default context. \<open>child\<close> leaves
  the parent's configuration as it was, so the parent's log calls are what they were
  before, and their entries have no key that neither the parent's default context nor
  the call-site context defines.
\<close>

theorem child_context:
  assumes "this < next_ref h"
    and "wf_opt (defaultContext (loggers h this))" and "wf_obj dc"
    and "child this dc h = (c, h')"
  shows "props (defaultContext (loggers h' c)) = props (defaultContext (loggers h this)) ++ map_of dc
     \<and> (\<forall>k \<in> dom (map_of dc). props (defaultContext (loggers h' c)) k = map_of dc k)
     \<and> loggers h' this = loggers h this
     \<and> Logger_log h' this now lvl msg ctx err = Logger_log h this now lvl msg ctx err
     \<and> (shouldLog (loggers h' c) lvl \<and> wf_opt ctx \<longrightarrow>
          (\<exists>entry m. entries_built (snd (Logger_log h' c now lvl msg ctx err)) = [entry]
             \<and> context entry = Some m
             \<and> (\<forall>k \<in> dom (map_of dc).
                   map_of m k = (if k \<in> dom (props ctx) then props ctx k else map_of dc k))
             \<and> dom (props (defaultContext (loggers h this))) \<subseteq> dom (map_of m)))
     \<and> (shouldLog (loggers h this) lvl \<and> wf_opt ctx \<longrightarrow>
          (\<exists>entry m. entries_built (snd (Logger_log h' this now lvl msg ctx err)) = [entry]
             \<and> context entry = Some m
             \<and> (\<forall>k. k \<notin> dom (props (defaultContext (loggers h this))) \<and> k \<notin> dom (props ctx)
                     \<longrightarrow> map_of m k = None)))"
proof -
  note cs = child_store [OF assms(4)]
  from assms(1) have ne: "this \<noteq> next_ref h" by simp
  have p: "loggers h' this = loggers h this" using cs(8) [OF ne] .
  let ?D = "defaultContext (loggers h this)"
  have wdc: "wf_opt (Some dc)" using assms(3) by (simp add: wf_opt_def)
  have d: "props (defaultContext (loggers h' c)) = props ?D ++ map_of dc"
    using merge_props [OF assms(2) wdc] by (simp add: cs(7) props_def)
  have wc: "wf_opt (defaultContext (loggers h' c))"
    by (simp add: cs(7) wf_opt_def merge_wf)
  have 1: "\<forall>k \<in> dom (map_of dc). props (defaultContext (loggers h' c)) k = map_of dc k"
    by (auto simp: d map_add_def)
  have 2: "Logger_log h' this now lvl msg ctx err = Logger_log h this now lvl msg ctx err"
    using p cs(3,4) by (rule Logger_log_cong)
  have 3: "\<exists>entry m. entries_built (snd (Logger_log h' c now lvl msg ctx err)) = [entry]
             \<and> context entry = Some m
             \<and> (\<forall>k \<in> dom (map_of dc).
                   map_of m k = (if k \<in> dom (props ctx) then props ctx k else map_of dc k))
             \<and> dom (props ?D) \<subseteq> dom (map_of m)"
    if g: "shouldLog (loggers h' c) lvl" and w: "wf_opt ctx"
  proof -
    let ?m = "spread (spread [] (defaultContext (loggers h' c))) ctx"
    have m: "map_of ?m = (props ?D ++ map_of dc) ++ props ctx"
      using merge_props [OF wc w] d by simp
    have a: "\<forall>k \<in> dom (map_of dc).
        map_of ?m k = (if k \<in> dom (props ctx) then props ctx k else map_of dc k)"
      by (auto simp: m map_add_def split: option.split)
    have b: "dom (props ?D) \<subseteq> dom (map_of ?m)" by (auto simp: m)
    from Logger_log_built [OF g, of now msg ctx err] a b show ?thesis by simp
  qed
  have 4: "\<exists>entry m. entries_built (snd (Logger_log h' this now lvl msg ctx err)) = [entry]
             \<and> context entry = Some m
             \<and> (\<forall>k. k \<notin> dom (props ?D) \<and> k \<notin> dom (props ctx) \<longrightarrow> map_of m k = None)"
    if g: "shouldLog (loggers h this) lvl" and w: "wf_opt ctx"
  proof -
    let ?m = "spread (spread [] ?D) ctx"
    have m: "map_of ?m = props ?D ++ props ctx"
      using merge_props [OF assms(2) w] .
    have a: "\<forall>k. k \<notin> dom (props ?D) \<and> k \<notin> dom (props ctx) \<longrightarrow> map_of ?m k = None"
      by (auto simp: m map_add_def split: option.split)
    from Logger_log_built [OF g, of now msg ctx err] a show ?thesis
      unfolding 2 by simp
  qed
  from d 1 p 2 3 4 show ?thesis by blast
qed

theorem child_context_witness:
  "(1::nat) < next_ref (example_store [0])
   \<and> wf_opt (defaultContext (loggers (example_store [0]) 1))
   \<and> wf_obj [(''userId'', JStr ''123'')]
   \<and> child 1 [(''userId'', JStr ''123'')] (example_store [0]) = (2, example_child_store [0])
   \<and> shouldLog (loggers (example_child_store [0]) 2) Error
   \<and> shouldLog (loggers (example_store [0]) 1) Error
   \<and> wf_opt None
   \<and> ''userId'' \<in> dom (map_of [(''userId'', JStr ''123'')])
   \<and> ''userId'' \<notin> dom (props (defaultContext (loggers (example_store [0]) 1)))
   \<and> (\<exists>entry m. entries_built (snd (Logger_log (example_child_store [0]) 2 0 Error
            ''Failed to save'' None (Some database_error))) = [entry]
         \<and> context entry = Some m \<and> map_of m ''userId'' = Some (JStr ''123'')
         \<and> ''app'' \<in> dom (map_of m))
   \<and> (\<exists>entry m. entries_built (snd (Logger_log (example_child_store [0]) 1 0 Error
            ''Failed to save'' None (Some database_error))) = [entry]
         \<and> context entry = Some m \<and> map_of m ''userId'' = None)"
proof -
  let ?h = "example_store [0]"
  let ?dc = "[(''userId'', JStr ''123'')]"
  let ?err = "Some database_error"
  have a: "(1::nat) < next_ref ?h" by (simp add: example_store_logger)
  have b: "wf_opt (defaultContext (loggers ?h 1))" by code_simp
  have w: "wf_obj ?dc" by code_simp
  have "fst (child 1 ?dc ?h) = 2"
    by (simp add: child_def Logger_new_def Let_def example_store_logger)
  then have c: "child 1 ?dc ?h = (2, example_child_store [0])"
    by (simp add: example_child_store_def prod_eq_iff)
  have g2: "shouldLog (loggers (example_child_store [0]) 2) Error" by code_simp
  have g1: "shouldLog (loggers ?h 1) Error" by code_simp
  have n: "wf_opt None" by (simp add: wf_opt_def)
  have k: "''userId'' \<in> dom (map_of ?dc)" by simp
  have dp: "props (defaultContext (loggers ?h 1)) = [''app'' \<mapsto> JStr ''MyApp'']"
    by (simp add: example_store_logger props_def)
  have nk: "''userId'' \<notin> dom (props (defaultContext (loggers ?h 1)))"
    unfolding dp by simp
  have ak: "''app'' \<in> dom (props (defaultContext (loggers ?h 1)))"
    unfolding dp by simp
  have pn: "props None = Map.empty" by (simp add: props_def)
  note t = child_context [OF a b w c, of 0 Error "''Failed to save''" None ?err]
  from t g2 n obtain entry m where
    e: "entries_built (snd (Logger_log (example_child_store [0]) 2 0 Error
            ''Failed to save'' None ?err)) = [entry]" "context entry = Some m"
    and v: "\<forall>k \<in> dom (map_of ?dc).
              map_of m k = (if k \<in> dom (props None) then props None k else map_of ?dc k)"
    and s: "dom (props (defaultContext (loggers ?h 1))) \<subseteq> dom (map_of m)"
    by blast
  from v k have "map_of m ''userId'' = Some (JStr ''123'')" by (simp add: pn)
  moreover from s ak have "''app'' \<in> dom (map_of m)" by blast
  ultimately have child_part: "\<exists>entry m. entries_built (snd (Logger_log (example_child_store [0]) 2 0 Error
            ''Failed to save'' None ?err)) = [entry]
         \<and> context entry = Some m \<and> map_of m ''userId'' = Some (JStr ''123'')
         \<and> ''app'' \<in> dom (map_of m)"
    using e by blast
  from t g1 n obtain entry' m' where
    e': "entries_built (snd (Logger_log (example_child_store [0]) 1 0 Error
            ''Failed to save'' None ?err)) = [entry']" "context entry' = Some m'"
    and v': "\<forall>k. k \<notin> dom (props (defaultContext (loggers ?h 1))) \<and> k \<notin> dom (props None)
                     \<longrightarrow> map_of m' k = None"
    by blast
  from v' nk have "map_of m' ''userId'' = None" by (simp add: pn)
  with e' have parent_part: "\<exists>entry m. entries_built (snd (Logger_log (example_child_store [0]) 1 0 Error
            ''Failed to save'' None ?err)) = [entry]
         \<and> context entry = Some m \<and> map_of m ''userId'' = None"
    by blast
  from a b w c g2 g1 n k nk child_part parent_part show ?thesis by blast
qed

section \<open>The default formatter\<close>

text \<open>
  Claim C9 says that the JSON rendering of the context follows the message only when the
  context is present and not empty. An entry with the empty context is rendered with
  \<^verbatim>\<open>{}\<close> after the message: the test in the code is for presence only. This is the line
  of every entry that \<open>log\<close> builds without any context.
\<close>

theorem defaultFormatter_empty_context:
  "defaultFormatter
     \<lparr>level = Info, message = ''Application started'', timestamp = 1700000000000,
      context = Some [], error = None, tags = Some [], source = Some ''application''\<rparr>
   = ''[2023-11-14T22:13:20.000Z] INFO: Application started {}''"
  by code_simp

text \<open>
  Claim C9, amended. The default formatter produces the ISO-8601 timestamp in brackets,
  the level in upper case, a colon and the message; then a space and the JSON rendering
  of the context whenever a context is present, the empty one included; then a space and
  the stack text of the error only when an error is present (the text \<^verbatim>\<open>undefined\<close> if the
  error has no stack).
\<close>

theorem defaultFormatter_line:
  "defaultFormatter entry =
     ''['' @ toISOString (timestamp entry) @ ''] ''
     @ (case level entry of
          Debug \<Rightarrow> ''DEBUG'' | Info \<Rightarrow> ''INFO'' | Warn \<Rightarrow> ''WARN''
        | Error \<Rightarrow> ''ERROR'' | Fatal \<Rightarrow> ''FATAL'')
     @ '': '' @ message entry
     @ (case context entry of
          None \<Rightarrow> ''''
        | Some c \<Rightarrow> '' '' @ ''{'' @ join (JSON_props c) @ ''}'')
     @ (case error entry of
          None \<Rightarrow> ''''
        | Some e \<Rightarrow> '' '' @ (case stack e of None \<Rightarrow> ''undefined'' | Some s \<Rightarrow> s))"
proof -
  have up: "toUpperCase (level_name lvl) =
      (case lvl of Debug \<Rightarrow> ''DEBUG'' | Info \<Rightarrow> ''INFO'' | Warn \<Rightarrow> ''WARN''
        | Error \<Rightarrow> ''ERROR'' | Fatal \<Rightarrow> ''FATAL'')" for lvl
  proof -
    have "toUpperCase (level_name Debug) = ''DEBUG''" by code_simp
    moreover have "toUpperCase (level_name Info) = ''INFO''" by code_simp
    moreover have "toUpperCase (level_name Warn) = ''WARN''" by code_simp
    moreover have "toUpperCase (level_name Error) = ''ERROR''" by code_simp
    moreover have "toUpperCase (level_name Fatal) = ''FATAL''" by code_simp
    ultimately show ?thesis by (cases lvl) simp_all
  qed
  show ?thesis
    by (simp add: defaultFormatter_def up JSON_stringify_def template_def Let_def
        split: option.split)
qed

section \<open>Failure isolation in the fan-out\<close>

text \<open>
  The Logger of src/src/index.ts: when the entry passes the gate and the filters, \<open>log\<close>
  resolves whatever the transports do, every transport of the list is written the
  formatted entry, and every write that throws or rejects is reported on the console.
\<close>

lemma fan_out_reports:
  assumes "t \<in> set ts" and "tw t e = Throws ex \<or> tw t e = Rejects ex"
  shows "report ex \<in> set (write_calls tw ts e @ caught_rejections tw ts e)"
  using assms by (induction ts) auto

lemma Logger_log_isolates_failures:
  assumes "shouldLog (loggers h this) lvl"
    and "formatter (loggers h this) = Some fmt" and "filters (loggers h this) = Some fs"
    and "Logger_log h this now lvl msg ctx err = (r, evs)"
    and "entries_built evs = [entry]"
    and "fmt entry = Inr rendered"
    and "\<forall>f \<in> set fs. f (entry\<lparr>message := rendered\<rparr>) = Inr True"
  shows "r = Resolved
     \<and> writes evs = map (\<lambda>t. (t, entry\<lparr>message := rendered\<rparr>)) (transports_of h this)
     \<and> (\<forall>t \<in> set (transports_of h this). \<forall>ex.
           transport_write h t (entry\<lparr>message := rendered\<rparr>) = Throws ex
           \<or> transport_write h t (entry\<lparr>message := rendered\<rparr>) = Rejects ex
           \<longrightarrow> report ex \<in> set evs)"
proof -
  let ?e = "\<lparr>level = lvl, message = msg, timestamp = now,
       context = Some (spread (spread [] (defaultContext (loggers h this))) ctx),
       error = err, tags = Some [], source = Some ''application''\<rparr>"
  let ?fe = "entry\<lparr>message := rendered\<rparr>"
  let ?ts = "arrays h (transports (loggers h this))"
  from Logger_log_built [OF assms(1), of now msg ctx err] assms(4,5)
  have e: "entry = ?e" by simp
  obtain r' evs' where ev: "every fs ?fe = (r', evs')" by (cases "every fs ?fe")
  from every_True [of fs ?fe] ev assms(7) have r': "r' = Inr True" by simp
  note tr = every_traceD [OF ev]
  have w: "writeToTransports h (loggers h this) entry =
      (Resolved, FormatterCalled entry # evs'
         @ write_calls (transport_write h) ?ts ?fe
         @ caught_rejections (transport_write h) ?ts ?fe)"
    using writeToTransports_passed [OF assms(2,6,3) ev, of h] r' by simp
  from assms(1,4) w have res: "r = Resolved"
    and evs: "evs = EntryBuilt entry # FormatterCalled entry # evs'
         @ write_calls (transport_write h) ?ts ?fe
         @ caught_rejections (transport_write h) ?ts ?fe"
    unfolding e by (simp_all add: Logger_log_def Let_def)
  have wr: "writes evs = map (\<lambda>t. (t, ?fe)) (transports_of h this)"
    using tr by (simp add: evs writes_append write_calls_trace caught_rejections_trace
        transports_of_def)
  have rep: "report ex \<in> set evs"
    if "t \<in> set (transports_of h this)"
      and "transport_write h t ?fe = Throws ex \<or> transport_write h t ?fe = Rejects ex"
    for t ex
    using fan_out_reports [of t ?ts "transport_write h" ?fe ex] that
    by (simp add: evs transports_of_def)
  from res wr rep show ?thesis by blast
qed

text \<open>
  Claim C1. If the write of one registered transport fails, by throwing or by rejecting,
  the error is caught and reported, the call of log still resolves, and every other
  registered transport still receives the entry. The Logger of src/src/index.ts does so
  (\<open>Logger_log_isolates_failures\<close>). The \<^verbatim>\<open>log\<close> of the variant in src/unnamed/part_000 does
  not: with the transports \<open>[1, 0]\<close>, where the write of transport 1 throws, the call
  rejects with that error, nothing is reported and transport 0 is never written; with
  \<open>[2, 0]\<close>, where the write of transport 2 rejects, the rejection is left unhandled.
\<close>

theorem log_part000_no_isolation:
  "log_part000 (example_store [1, 0]) (loggers (example_store [1, 0]) 1) 0 Warn ''x'' None =
     (Rejected database_error,
      [Console Console_warn ''x'',
       EntryBuilt \<lparr>level = Warn, message = ''x'', timestamp = 0, context = None,
                   error = None, tags = None, source = None\<rparr>,
       WriteCalled 1 \<lparr>level = Warn, message = ''x'', timestamp = 0, context = None,
                   error = None, tags = None, source = None\<rparr>])
   \<and> log_part000 (example_store [2, 0]) (loggers (example_store [2, 0]) 1) 0 Warn ''x'' None =
     (Resolved,
      [Console Console_warn ''x'',
       EntryBuilt \<lparr>level = Warn, message = ''x'', timestamp = 0, context = None,
                   error = None, tags = None, source = None\<rparr>,
       WriteCalled 2 \<lparr>level = Warn, message = ''x'', timestamp = 0, context = None,
                   error = None, tags = None, source = None\<rparr>,
       WriteCalled 0 \<lparr>level = Warn, message = ''x'', timestamp = 0, context = None,
                   error = None, tags = None, source = None\<rparr>,
       UnhandledRejection database_error])"
  by code_simp

text \<open>The same transports under the Logger of src/src/index.ts.\<close>

lemma Logger_log_isolation_example:
  "fst (Logger_log (example_store [1, 2, 0]) 1 0 Warn ''x'' None None) = Resolved
   \<and> map fst (writes (snd (Logger_log (example_store [1, 2, 0]) 1 0 Warn ''x'' None None))) = [1, 2, 0]
   \<and> diagnostics (snd (Logger_log (example_store [1, 2, 0]) 1 0 Warn ''x'' None None)) =
       [''Transport error: Error: Database error'', ''Transport error: Error: Database error'']"
  by code_simp

end
